theory Spec2Isabelle
  imports Main "HOL-Library.Word"
begin

unbundle bit_operations_syntax

text \<open>
  The query validation of \<^verbatim>\<open>graphql_validation.go\<close>: the four analyzers of a parsed
  GraphQL document (depth, alias count, complexity, introspection) and the policy
  \<^verbatim>\<open>ValidateGraphQLQuery\<close> that turns them into a verdict.
\<close>

section \<open>The document tree (package ast of graphql-go, as the analyzers read it)\<close>

text \<open>
  Only the members the analyzers of \<^verbatim>\<open>graphql_validation.go\<close> read are kept.
  A pointer that may be nil is an \<open>option\<close>: \<open>Alias\<close> and \<open>Name\<close> are
  \<^verbatim>\<open>*ast.Name\<close> (the string is \<^verbatim>\<open>Name.Value\<close>), and every
  \<^verbatim>\<open>SelectionSet\<close> member is a \<^verbatim>\<open>*ast.SelectionSet\<close>.
  The constructor for \<^verbatim>\<open>ast.Field\<close> is called \<open>Field_ast\<close>, since
  \<open>Field\<close> is the field of a relation in HOL.
\<close>

datatype selection =
    Field_ast "string option" "string option" "selectionSet option"
  | InlineFragment "selectionSet option"
  | FragmentSpread "string option"
and selectionSet =
    SelectionSet "selection list"

text \<open>
  \<^verbatim>\<open>ast.Node\<close> is an interface; the type switches of the analyzers have a case for
  three kinds of node and fall through for every other kind (type-system definitions,
  which the parser also accepts at top level, and all inner nodes), here \<open>OtherNode\<close>.
  \<^verbatim>\<open>Document.Definitions\<close> is a \<^verbatim>\<open>[]ast.Node\<close>.
\<close>

datatype node =
    Document "node list"
  | OperationDefinition "selectionSet option"
  | FragmentDefinition "selectionSet option"
  | OtherNode

section \<open>Depth\<close>

text \<open>
  The range loops are left folds over the slice; the accumulator is the local variable
  the loop assigns (\<^verbatim>\<open>maxDepth\<close>, \<^verbatim>\<open>count\<close>, \<^verbatim>\<open>complexity\<close>).
  In \<^verbatim>\<open>calculateSelectionSetDepth\<close> the local \<^verbatim>\<open>depth\<close> is declared without
  a value, so an inline fragment whose selection set is nil leaves it at zero.

  Depth and alias count are values of Go's \<^verbatim>\<open>int\<close>. Both are bounded by the number
  of Field nodes of the tree (lemmas \<open>calculateQueryDepth_bounds\<close> and
  \<open>countAliases_bounds\<close> below), so they never reach the range where
  the machine integer wraps, and they are modelled in \<open>int\<close>. The complexity doubles
  its multiplier at every level of nesting and does wrap on a tree of 64 levels; it is
  modelled in \<open>64 word\<close>, read as a signed integer.
\<close>

fun calculateSelectionSetDepth :: "selectionSet \<Rightarrow> int \<Rightarrow> int" where
  "calculateSelectionSetDepth (SelectionSet selections) currentDepth =
     foldl (\<lambda>maxDepth selection.
        let depth =
          (case selection of
             Field_ast alias name selSet \<Rightarrow>
               (case selSet of
                  Some s \<Rightarrow> calculateSelectionSetDepth s (currentDepth + 1)
                | None \<Rightarrow> currentDepth + 1)
           | InlineFragment selSet \<Rightarrow>
               (case selSet of
                  Some s \<Rightarrow> calculateSelectionSetDepth s currentDepth
                | None \<Rightarrow> 0)
           | FragmentSpread name \<Rightarrow> currentDepth)
        in if depth > maxDepth then depth else maxDepth)
       currentDepth selections"

fun calculateQueryDepth :: "node \<Rightarrow> int \<Rightarrow> int" where
  "calculateQueryDepth (Document definitions) currentDepth =
     foldl (\<lambda>maxDepth def.
        let depth = calculateQueryDepth def currentDepth
        in if depth > maxDepth then depth else maxDepth)
       currentDepth definitions"
| "calculateQueryDepth (OperationDefinition selSet) currentDepth =
     (case selSet of
        Some s \<Rightarrow>
          (let depth = calculateSelectionSetDepth s currentDepth
           in if depth > currentDepth then depth else currentDepth)
      | None \<Rightarrow> currentDepth)"
| "calculateQueryDepth (FragmentDefinition selSet) currentDepth =
     (case selSet of
        Some s \<Rightarrow>
          (let depth = calculateSelectionSetDepth s currentDepth
           in if depth > currentDepth then depth else currentDepth)
      | None \<Rightarrow> currentDepth)"
| "calculateQueryDepth OtherNode currentDepth = currentDepth"

section \<open>Aliases\<close>

fun countSelectionSetAliases :: "selectionSet \<Rightarrow> int" where
  "countSelectionSetAliases (SelectionSet selections) =
     foldl (\<lambda>count selection.
        (case selection of
           Field_ast alias name selSet \<Rightarrow>
             (let count1 =
                (case alias of
                   Some v \<Rightarrow> if v \<noteq> [] then count + 1 else count
                 | None \<Rightarrow> count)
              in (case selSet of
                    Some s \<Rightarrow> count1 + countSelectionSetAliases s
                  | None \<Rightarrow> count1))
         | InlineFragment selSet \<Rightarrow>
             (case selSet of
                Some s \<Rightarrow> count + countSelectionSetAliases s
              | None \<Rightarrow> count)
         | FragmentSpread name \<Rightarrow> count))
       0 selections"

fun countAliases :: "node \<Rightarrow> int" where
  "countAliases (Document definitions) =
     foldl (\<lambda>count def. count + countAliases def) 0 definitions"
| "countAliases (OperationDefinition selSet) =
     (case selSet of Some s \<Rightarrow> 0 + countSelectionSetAliases s | None \<Rightarrow> 0)"
| "countAliases (FragmentDefinition selSet) =
     (case selSet of Some s \<Rightarrow> 0 + countSelectionSetAliases s | None \<Rightarrow> 0)"
| "countAliases OtherNode = 0"

section \<open>Complexity\<close>

text \<open>
  \<open>go_int\<close> is Go's \<^verbatim>\<open>int\<close> on a 64-bit platform: addition and multiplication
  wrap around, and comparisons read the word as a signed integer (\<open><s\<close>, \<open>\<le>s\<close>).
\<close>

type_synonym go_int = "64 word"

fun calculateSelectionSetComplexity :: "selectionSet \<Rightarrow> go_int \<Rightarrow> go_int" where
  "calculateSelectionSetComplexity (SelectionSet selections) multiplier =
     foldl (\<lambda>complexity selection.
        (case selection of
           Field_ast alias name selSet \<Rightarrow>
             (let complexity1 = complexity + multiplier
              in (case selSet of
                    Some s \<Rightarrow>
                      (let nestedComplexity = calculateSelectionSetComplexity s (multiplier * 2)
                       in complexity1 + nestedComplexity)
                  | None \<Rightarrow> complexity1))
         | InlineFragment selSet \<Rightarrow>
             (case selSet of
                Some s \<Rightarrow> complexity + calculateSelectionSetComplexity s multiplier
              | None \<Rightarrow> complexity)
         | FragmentSpread name \<Rightarrow> complexity + multiplier))
       0 selections"

fun calculateQueryComplexity :: "node \<Rightarrow> go_int \<Rightarrow> go_int" where
  "calculateQueryComplexity (Document definitions) multiplier =
     foldl (\<lambda>complexity def. complexity + calculateQueryComplexity def multiplier)
       0 definitions"
| "calculateQueryComplexity (OperationDefinition selSet) multiplier =
     (case selSet of
        Some s \<Rightarrow> 0 + calculateSelectionSetComplexity s multiplier
      | None \<Rightarrow> 0)"
| "calculateQueryComplexity (FragmentDefinition selSet) multiplier =
     (case selSet of
        Some s \<Rightarrow> 0 + calculateSelectionSetComplexity s multiplier
      | None \<Rightarrow> 0)"
| "calculateQueryComplexity OtherNode multiplier = 0"

section \<open>Introspection\<close>

text \<open>
  A loop whose body returns true from the function and which is followed by
  \<^verbatim>\<open>return false\<close> is \<open>list_ex\<close> of the body's condition.
\<close>

fun hasIntrospectionInSelectionSet :: "selectionSet \<Rightarrow> bool" where
  "hasIntrospectionInSelectionSet (SelectionSet selections) =
     list_ex (\<lambda>selection.
        (case selection of
           Field_ast alias name selSet \<Rightarrow>
             (case name of
                Some fieldName \<Rightarrow> fieldName = ''__schema'' \<or> fieldName = ''__type''
              | None \<Rightarrow> False)
             \<or> (case selSet of
                  Some s \<Rightarrow> hasIntrospectionInSelectionSet s
                | None \<Rightarrow> False)
         | InlineFragment selSet \<Rightarrow>
             (case selSet of
                Some s \<Rightarrow> hasIntrospectionInSelectionSet s
              | None \<Rightarrow> False)
         | FragmentSpread name \<Rightarrow> False))
       selections"

fun hasIntrospection :: "node \<Rightarrow> bool" where
  "hasIntrospection (Document definitions) = list_ex (\<lambda>def. hasIntrospection def) definitions"
| "hasIntrospection (OperationDefinition selSet) =
     (case selSet of Some s \<Rightarrow> hasIntrospectionInSelectionSet s | None \<Rightarrow> False)"
| "hasIntrospection (FragmentDefinition selSet) =
     (case selSet of Some s \<Rightarrow> hasIntrospectionInSelectionSet s | None \<Rightarrow> False)"
| "hasIntrospection OtherNode = False"

section \<open>The validation policy\<close>

text \<open>
  Two functions that \<^verbatim>\<open>ValidateGraphQLQuery\<close> calls are not code of this
  repository and are parameters of the model:
  \<^item> \<open>unmarshal\<close> is \<^verbatim>\<open>json.Unmarshal\<close> into a
    \<^verbatim>\<open>map[string]interface{}\<close>: \<open>None\<close> when it returns an error, otherwise
    the decoded map. Of a decoded member only its dynamic type matters to the type
    assertion \<^verbatim>\<open>.(string)\<close>: \<open>JString\<close> carries the string, \<open>JOther\<close>
    is any other value. A key that is absent reads as nil, which is not a string.
  \<^item> \<open>parse\<close> is \<^verbatim>\<open>parser.Parse\<close> on a source whose body is the query
    text: \<open>None\<close> when it returns an error, otherwise the document.

  The error returned is one of four \<^verbatim>\<open>fmt.Errorf\<close> messages; the constructors
  carry the numbers formatted into the message, the limit first:
  \<^item> \<open>IntrospectionDisabled\<close>: "GraphQL introspection is disabled";
  \<^item> \<open>DepthExceeded\<close>: "query depth exceeds maximum allowed depth of %d (actual: %d)";
  \<^item> \<open>TooManyAliases\<close>: "query contains too many aliases. Maximum allowed: %d, found: %d";
  \<^item> \<open>ComplexityExceeded\<close>:
    "query complexity exceeds maximum allowed complexity of %d (actual: %d)".
  The result \<open>None\<close> is the nil error.
\<close>

datatype json_value = JString string | JOther

datatype validation_error =
    IntrospectionDisabled
  | DepthExceeded int int
  | TooManyAliases int int
  | ComplexityExceeded go_int go_int

definition ValidateGraphQLQuery ::
  "(string \<Rightarrow> (string \<rightharpoonup> json_value) option) \<Rightarrow> (string \<Rightarrow> node option) \<Rightarrow>
   string \<Rightarrow> 'schema \<Rightarrow> validation_error option" where
  "ValidateGraphQLQuery unmarshal parse queryString schema =
     (if queryString = [] then None
      else
        let queryString1 =
          (case unmarshal queryString of
             Some queryData \<Rightarrow>
               (case queryData ''query'' of
                  Some (JString query) \<Rightarrow> query
                | Some JOther \<Rightarrow> queryString
                | None \<Rightarrow> queryString)
           | None \<Rightarrow> queryString)
        in
        (case parse queryString1 of
           None \<Rightarrow> None
         | Some doc \<Rightarrow>
             if hasIntrospection doc then Some IntrospectionDisabled
             else
               let maxDepth = 10; depth = calculateQueryDepth doc 0 in
               if depth > maxDepth then Some (DepthExceeded maxDepth depth)
               else
                 let maxAliases = 4; aliasCount = countAliases doc in
                 if aliasCount > maxAliases then Some (TooManyAliases maxAliases aliasCount)
                 else
                   let maxComplexity = 200; complexity = calculateQueryComplexity doc 1 in
                   if maxComplexity <s complexity
                   then Some (ComplexityExceeded maxComplexity complexity)
                   else None))"

section \<open>The documents of the scenarios\<close>

text \<open>
  The trees \<^verbatim>\<open>parser.Parse\<close> builds for the queries of the scenarios: one
  anonymous operation; a field has a nil alias unless the query writes one, and a nil
  selection set unless the query opens a brace after it. Arguments are not kept.
\<close>

definition leaf :: "string \<Rightarrow> selection" where
  "leaf n = Field_ast None (Some n) None"

definition composite :: "string \<Rightarrow> selection list \<Rightarrow> selection" where
  "composite n sels = Field_ast None (Some n) (Some (SelectionSet sels))"

definition aliased :: "string \<Rightarrow> string \<Rightarrow> selection list \<Rightarrow> selection" where
  "aliased a n sels = Field_ast (Some a) (Some n) (Some (SelectionSet sels))"

definition query_doc :: "selection list \<Rightarrow> node" where
  "query_doc sels = Document [OperationDefinition (Some (SelectionSet sels))]"

definition scenarioA_query :: string where
  "scenarioA_query = ''{ hello }''"

definition scenarioA_doc :: node where
  "scenarioA_doc = query_doc [leaf ''hello'']"

definition scenarioB_query :: string where
  "scenarioB_query = ''{ a { b { c { d { e { f } } } } } }''"

definition scenarioB_doc :: node where
  "scenarioB_doc =
     query_doc [composite ''a'' [composite ''b'' [composite ''c''
       [composite ''d'' [composite ''e'' [leaf ''f'']]]]]]"

definition scenarioC_query :: string where
  "scenarioC_query =
     ''{ u1: user(id:1){name} u2: user(id:2){name} u3: user(id:3){name} u4: user(id:4){name} u5: user(id:5){name} }''"

definition scenarioC_doc :: node where
  "scenarioC_doc =
     query_doc
       [aliased ''u1'' ''user'' [leaf ''name''], aliased ''u2'' ''user'' [leaf ''name''],
        aliased ''u3'' ''user'' [leaf ''name''], aliased ''u4'' ''user'' [leaf ''name''],
        aliased ''u5'' ''user'' [leaf ''name'']]"

definition scenarioD_doc :: node where
  "scenarioD_doc = query_doc [composite ''__schema'' [composite ''types'' [leaf ''name'']]]"

definition scenarioD_query :: string where
  "scenarioD_query = ''{ __schema { types { name } } }''"

definition scenarioF_body :: string where
  "scenarioF_body = ''{\"query\": \"{ hello }\"}''"

text \<open>
  A chain of \<open>n\<close> aliased composite fields around one aliased leaf, as the parser builds
  it for \<^verbatim>\<open>{ x: f { x: f { ... x: f } } }\<close>.
\<close>

fun aliasedChain :: "nat \<Rightarrow> selection" where
  "aliasedChain 0 = Field_ast (Some ''x'') (Some ''f'') None"
| "aliasedChain (Suc n) = aliased ''x'' ''f'' [aliasedChain n]"

definition deepAliased_query :: string where
  "deepAliased_query =
     ''{ x: f { x: f { x: f { x: f { x: f { x: f { x: f { x: f { x: f { x: f { x: f } } } } } } } } } } }''"

definition deepAliased_doc :: node where
  "deepAliased_doc = query_doc [aliasedChain 10]"

text \<open>
  Documents for the addition of a leaf field: \<open>n\<close> composite fields nested around a
  selection list, the chain of 62 around one leaf and around two, and the query
  \<^verbatim>\<open>{ hello }\<close> with a second leaf, plain or aliased.
\<close>

fun nestedFields :: "nat \<Rightarrow> selection list \<Rightarrow> selection list" where
  "nestedFields 0 inner = inner"
| "nestedFields (Suc n) inner = [composite ''f'' (nestedFields n inner)]"

definition deepChain_doc :: node where
  "deepChain_doc = query_doc (nestedFields 62 [leaf ''x''])"

definition deepChain_doc' :: node where
  "deepChain_doc' = query_doc (nestedFields 62 [leaf ''x'', leaf ''y''])"

definition twoLeaves_doc :: node where
  "twoLeaves_doc = query_doc [leaf ''hello'', leaf ''b'']"

definition aliasedLeaves_doc :: node where
  "aliasedLeaves_doc = query_doc [leaf ''hello'', Field_ast (Some ''h2'') (Some ''hello'') None]"

text \<open>
  Stand-ins for the two library functions on the inputs of the scenarios: the parser on the
  query of scenario B; the JSON decoder and the parser on the body of scenario F, where
  the parser answers with an introspection document for the raw body, so that a
  validation of the raw body would be rejected.
\<close>

definition scenarioF_unmarshal :: "string \<Rightarrow> (string \<rightharpoonup> json_value) option" where
  "scenarioF_unmarshal body =
     (if body = scenarioF_body then Some [''query'' \<mapsto> JString ''{ hello }''] else None)"

definition scenarioF_parse :: "string \<Rightarrow> node option" where
  "scenarioF_parse text =
     (if text = scenarioA_query then Some scenarioA_doc
      else if text = scenarioF_body then Some scenarioD_doc
      else None)"

definition scenarioB_parse :: "string \<Rightarrow> node option" where
  "scenarioB_parse text = (if text = scenarioB_query then Some scenarioB_doc else None)"

section \<open>What the specification says the analyzers compute\<close>

text \<open>
  The definitions of this section follow the specification, not the code; the theorems
  below compare them with the functions above.
\<close>

subsection \<open>The Field nodes of a document\<close>

text \<open>
  Every Field node at any nesting level under any definition: the bodies of fields and
  of inline fragments are searched, a fragment spread is not expanded.
\<close>

fun selectionSetFields :: "selectionSet \<Rightarrow> selection list" where
  "selectionSetFields (SelectionSet selections) =
     concat (map (\<lambda>selection.
        (case selection of
           Field_ast alias name selSet \<Rightarrow>
             selection # (case selSet of Some s \<Rightarrow> selectionSetFields s | None \<Rightarrow> [])
         | InlineFragment selSet \<Rightarrow>
             (case selSet of Some s \<Rightarrow> selectionSetFields s | None \<Rightarrow> [])
         | FragmentSpread name \<Rightarrow> []))
       selections)"

fun documentFields :: "node \<Rightarrow> selection list" where
  "documentFields (Document definitions) = concat (map documentFields definitions)"
| "documentFields (OperationDefinition selSet) =
     (case selSet of Some s \<Rightarrow> selectionSetFields s | None \<Rightarrow> [])"
| "documentFields (FragmentDefinition selSet) =
     (case selSet of Some s \<Rightarrow> selectionSetFields s | None \<Rightarrow> [])"
| "documentFields OtherNode = []"

text \<open>The alias of a field is present and non-empty.\<close>

fun hasAlias :: "selection \<Rightarrow> bool" where
  "hasAlias (Field_ast (Some v) name selSet) = (v \<noteq> [])"
| "hasAlias _ = False"

text \<open>The name of a field is exactly one of the two reserved meta-query names.\<close>

fun isIntrospectionField :: "selection \<Rightarrow> bool" where
  "isIntrospectionField (Field_ast alias (Some n) selSet) = (n = ''__schema'' \<or> n = ''__type'')"
| "isIntrospectionField _ = False"

subsection \<open>Depth, as the maximum over the tree\<close>

text \<open>
  Within a selection set at depth \<open>d\<close>: a field without nested selections contributes
  \<open>d + 1\<close>, a field with nested selections the depth of its selection set at
  \<open>d + 1\<close>, an inline fragment the depth of its selection set at \<open>d\<close>, a fragment
  spread \<open>d\<close>. The maximum is taken together with \<open>d\<close> itself, which is the value of
  an empty selection set; an inline fragment without a selection set adds nothing to it.
\<close>

fun specSelectionSetDepth :: "selectionSet \<Rightarrow> int \<Rightarrow> int" where
  "specSelectionSetDepth (SelectionSet selections) d =
     Max (insert d ((\<lambda>selection.
        (case selection of
           Field_ast alias name None \<Rightarrow> d + 1
         | Field_ast alias name (Some s) \<Rightarrow> specSelectionSetDepth s (d + 1)
         | InlineFragment None \<Rightarrow> d
         | InlineFragment (Some s) \<Rightarrow> specSelectionSetDepth s d
         | FragmentSpread name \<Rightarrow> d)) ` set selections))"

fun specQueryDepth :: "node \<Rightarrow> int \<Rightarrow> int" where
  "specQueryDepth (Document definitions) d =
     Max (insert d ((\<lambda>def. specQueryDepth def d) ` set definitions))"
| "specQueryDepth (OperationDefinition (Some s)) d = specSelectionSetDepth s d"
| "specQueryDepth (FragmentDefinition (Some s)) d = specSelectionSetDepth s d"
| "specQueryDepth _ d = d"

subsection \<open>Complexity, as the sum over the tree\<close>

text \<open>
  Within a selection set at multiplier \<open>m\<close>: a field adds \<open>m\<close>, and the complexity
  of its selection set at \<open>2 * m\<close> when it has one; an inline fragment adds the
  complexity of its selection set at \<open>m\<close>; a fragment spread adds \<open>m\<close>. The sum is
  written once for every commutative ring: at \<open>64 word\<close> it is the sum in the
  arithmetic of Go's \<^verbatim>\<open>int\<close>, at \<open>int\<close> the sum of the exact integers.
\<close>

fun specSelectionSetComplexity :: "selectionSet \<Rightarrow> 'a::comm_ring_1 \<Rightarrow> 'a" where
  "specSelectionSetComplexity (SelectionSet selections) m =
     sum_list (map (\<lambda>selection.
        (case selection of
           Field_ast alias name None \<Rightarrow> m
         | Field_ast alias name (Some s) \<Rightarrow> m + specSelectionSetComplexity s (2 * m)
         | InlineFragment None \<Rightarrow> 0
         | InlineFragment (Some s) \<Rightarrow> specSelectionSetComplexity s m
         | FragmentSpread name \<Rightarrow> m))
       selections)"

fun specQueryComplexity :: "node \<Rightarrow> 'a::comm_ring_1 \<Rightarrow> 'a" where
  "specQueryComplexity (Document definitions) m =
     sum_list (map (\<lambda>def. specQueryComplexity def m) definitions)"
| "specQueryComplexity (OperationDefinition (Some s)) m = specSelectionSetComplexity s m"
| "specQueryComplexity (FragmentDefinition (Some s)) m = specSelectionSetComplexity s m"
| "specQueryComplexity _ m = 0"

subsection \<open>The steps of the policy\<close>

text \<open>
  Step 2: the query text of a request body. Steps 3 to 8: the verdict on a query text.
\<close>

definition extractQueryText :: "(string \<Rightarrow> (string \<rightharpoonup> json_value) option) \<Rightarrow> string \<Rightarrow> string" where
  "extractQueryText unmarshal body =
     (case unmarshal body of
        None \<Rightarrow> body
      | Some obj \<Rightarrow> (case obj ''query'' of Some (JString q) \<Rightarrow> q | _ \<Rightarrow> body))"

definition analyzeQueryText :: "(string \<Rightarrow> node option) \<Rightarrow> string \<Rightarrow> validation_error option" where
  "analyzeQueryText parse text =
     (case parse text of
        None \<Rightarrow> None
      | Some doc \<Rightarrow>
          if hasIntrospection doc then Some IntrospectionDisabled
          else if calculateQueryDepth doc 0 > 10
            then Some (DepthExceeded 10 (calculateQueryDepth doc 0))
          else if countAliases doc > 4
            then Some (TooManyAliases 4 (countAliases doc))
          else if 200 <s calculateQueryComplexity doc 1
            then Some (ComplexityExceeded 200 (calculateQueryComplexity doc 1))
          else None)"

subsection \<open>Adding a sibling leaf field\<close>

text \<open>
  \<open>insertLeaf path pos new s\<close> walks from the selection set \<open>s\<close> down the selections
  whose indices \<open>path\<close> lists (each a field or an inline fragment with a selection set)
  and inserts \<open>new\<close> before position \<open>pos\<close> of the selection set it reaches; the
  result is \<open>None\<close> when the path or the position does not exist.
  \<open>insertLeafNode defs path pos alias name doc\<close> does so below the definition that
  the indices \<open>defs\<close> reach from the document, with the leaf field of that alias and name.
\<close>

fun insertLeaf :: "nat list \<Rightarrow> nat \<Rightarrow> selection \<Rightarrow> selectionSet \<Rightarrow> selectionSet option" where
  "insertLeaf [] pos new (SelectionSet sels) =
     (if pos \<le> length sels then Some (SelectionSet (take pos sels @ [new] @ drop pos sels))
      else None)"
| "insertLeaf (i # path) pos new (SelectionSet sels) =
     (if i < length sels then
        (case sels ! i of
           Field_ast alias name (Some s) \<Rightarrow>
             (case insertLeaf path pos new s of
                Some s' \<Rightarrow> Some (SelectionSet (sels[i := Field_ast alias name (Some s')]))
              | None \<Rightarrow> None)
         | InlineFragment (Some s) \<Rightarrow>
             (case insertLeaf path pos new s of
                Some s' \<Rightarrow> Some (SelectionSet (sels[i := InlineFragment (Some s')]))
              | None \<Rightarrow> None)
         | _ \<Rightarrow> None)
      else None)"

fun insertLeafNode ::
  "nat list \<Rightarrow> nat list \<Rightarrow> nat \<Rightarrow> string option \<Rightarrow> string option \<Rightarrow> node \<Rightarrow> node option" where
  "insertLeafNode (k # ks) path pos alias name (Document definitions) =
     (if k < length definitions then
        (case insertLeafNode ks path pos alias name (definitions ! k) of
           Some d' \<Rightarrow> Some (Document (definitions[k := d']))
         | None \<Rightarrow> None)
      else None)"
| "insertLeafNode [] path pos alias name (OperationDefinition (Some s)) =
     (case insertLeaf path pos (Field_ast alias name None) s of
        Some s' \<Rightarrow> Some (OperationDefinition (Some s'))
      | None \<Rightarrow> None)"
| "insertLeafNode [] path pos alias name (FragmentDefinition (Some s)) =
     (case insertLeaf path pos (Field_ast alias name None) s of
        Some s' \<Rightarrow> Some (FragmentDefinition (Some s'))
      | None \<Rightarrow> None)"
| "insertLeafNode _ path pos alias name _ = None"

section \<open>The body of each loop, for one selection\<close>

text \<open>
  What one iteration of each loop over the selections contributes. These are not
  functions of the source: they name the body of its loops, so that the loops can be
  read as a maximum and as sums.
\<close>

definition selectionDepth :: "selection \<Rightarrow> int \<Rightarrow> int" where
  "selectionDepth selection currentDepth =
     (case selection of
        Field_ast alias name selSet \<Rightarrow>
          (case selSet of
             Some s \<Rightarrow> calculateSelectionSetDepth s (currentDepth + 1)
           | None \<Rightarrow> currentDepth + 1)
      | InlineFragment selSet \<Rightarrow>
          (case selSet of
             Some s \<Rightarrow> calculateSelectionSetDepth s currentDepth
           | None \<Rightarrow> 0)
      | FragmentSpread name \<Rightarrow> currentDepth)"

definition selectionAliases :: "selection \<Rightarrow> int" where
  "selectionAliases selection =
     (case selection of
        Field_ast alias name selSet \<Rightarrow>
          (case alias of Some v \<Rightarrow> if v \<noteq> [] then 1 else 0 | None \<Rightarrow> 0)
          + (case selSet of Some s \<Rightarrow> countSelectionSetAliases s | None \<Rightarrow> 0)
      | InlineFragment selSet \<Rightarrow>
          (case selSet of Some s \<Rightarrow> countSelectionSetAliases s | None \<Rightarrow> 0)
      | FragmentSpread name \<Rightarrow> 0)"

definition selectionComplexity :: "selection \<Rightarrow> go_int \<Rightarrow> go_int" where
  "selectionComplexity selection multiplier =
     (case selection of
        Field_ast alias name selSet \<Rightarrow>
          multiplier
          + (case selSet of
               Some s \<Rightarrow> calculateSelectionSetComplexity s (multiplier * 2)
             | None \<Rightarrow> 0)
      | InlineFragment selSet \<Rightarrow>
          (case selSet of
             Some s \<Rightarrow> calculateSelectionSetComplexity s multiplier
           | None \<Rightarrow> 0)
      | FragmentSpread name \<Rightarrow> multiplier)"

section \<open>Loops as maxima and sums\<close>

lemma foldl_max_conv:
  fixes d :: "'a::linorder"
  shows "foldl (\<lambda>m x. let v = f x in if v > m then v else m) d xs = Max (insert d (f ` set xs))"
proof (induction xs arbitrary: d)
  case Nil
  show ?case by simp
next
  case (Cons x xs)
  have "(let v = f x in if v > d then v else d) = max d (f x)"
    by (auto simp: Let_def max_def)
  then have "foldl (\<lambda>m x. let v = f x in if v > m then v else m) d (x # xs)
      = Max (insert (max d (f x)) (f ` set xs))"
    using Cons.IH [of "max d (f x)"] by simp
  also have "\<dots> = Max (insert d (f ` set (x # xs)))"
    by (cases "f ` set xs = {}") (simp_all add: max.assoc insert_commute)
  finally show ?case .
qed

lemma foldl_add_conv:
  fixes a :: "'a::monoid_add"
  shows "foldl (\<lambda>c x. c + f x) a xs = a + sum_list (map f xs)"
  by (induction xs arbitrary: a) (simp_all add: add.assoc)

lemma calculateSelectionSetDepth_Max:
  "calculateSelectionSetDepth (SelectionSet sels) d =
     Max (insert d ((\<lambda>sel. selectionDepth sel d) ` set sels))"
  unfolding calculateSelectionSetDepth.simps selectionDepth_def
  by (rule foldl_max_conv)

lemma calculateQueryDepth_Max:
  "calculateQueryDepth (Document defs) d =
     Max (insert d ((\<lambda>def. calculateQueryDepth def d) ` set defs))"
  unfolding calculateQueryDepth.simps
  by (rule foldl_max_conv)

lemma countSelectionSetAliases_sum:
  "countSelectionSetAliases (SelectionSet sels) = sum_list (map selectionAliases sels)"
proof -
  have "countSelectionSetAliases (SelectionSet sels)
      = foldl (\<lambda>c x. c + selectionAliases x) 0 sels"
    unfolding countSelectionSetAliases.simps
    by (rule foldl_cong)
       (simp_all add: selectionAliases_def split: selection.split option.split)
  then show ?thesis by (simp add: foldl_add_conv)
qed

lemma countAliases_sum:
  "countAliases (Document defs) = sum_list (map countAliases defs)"
  by (simp add: foldl_add_conv)

lemma calculateSelectionSetComplexity_sum:
  "calculateSelectionSetComplexity (SelectionSet sels) m =
     sum_list (map (\<lambda>sel. selectionComplexity sel m) sels)"
proof -
  have "calculateSelectionSetComplexity (SelectionSet sels) m
      = foldl (\<lambda>c x. c + selectionComplexity x m) 0 sels"
    unfolding calculateSelectionSetComplexity.simps
    by (rule foldl_cong)
       (simp_all add: selectionComplexity_def Let_def add.assoc
          split: selection.split option.split)
  then show ?thesis by (simp add: foldl_add_conv)
qed

lemma calculateQueryComplexity_sum:
  "calculateQueryComplexity (Document defs) m =
     sum_list (map (\<lambda>def. calculateQueryComplexity def m) defs)"
  by (simp add: foldl_add_conv)

section \<open>The validation policy: order of the checks\<close>

lemmas scenario_defs =
  leaf_def composite_def aliased_def query_doc_def

lemma ValidateGraphQLQuery_analyze:
  "queryString \<noteq> [] \<Longrightarrow>
   ValidateGraphQLQuery unmarshal parse queryString schema =
     analyzeQueryText parse (extractQueryText unmarshal queryString)"
  by (simp add: ValidateGraphQLQuery_def analyzeQueryText_def extractQueryText_def Let_def
      split: option.split json_value.split)

text \<open>
  Claim C1. \<^verbatim>\<open>ValidateGraphQLQuery\<close> allows the empty query string, and allows a
  query text (the string itself, or the \<^verbatim>\<open>query\<close> member unwrapped from a JSON
  body) that does not parse. When the text parses to a document, an error is returned
  exactly when the document has introspection, or its depth is above 10, or its alias
  count above 4, or its complexity at base weight 1 above 200; the checks run in this
  order and the first that fails gives the reason.
\<close>

theorem ValidateGraphQLQuery_policy:
  "(queryString = [] \<longrightarrow> ValidateGraphQLQuery unmarshal parse queryString schema = None) \<and>
   (parse (extractQueryText unmarshal queryString) = None \<longrightarrow>
      ValidateGraphQLQuery unmarshal parse queryString schema = None) \<and>
   (queryString \<noteq> [] \<and> parse (extractQueryText unmarshal queryString) = Some doc \<longrightarrow>
      ((ValidateGraphQLQuery unmarshal parse queryString schema \<noteq> None) =
         (hasIntrospection doc \<or> calculateQueryDepth doc 0 > 10 \<or> countAliases doc > 4
          \<or> 200 <s calculateQueryComplexity doc 1)) \<and>
      ValidateGraphQLQuery unmarshal parse queryString schema =
        (if hasIntrospection doc then Some IntrospectionDisabled
         else if calculateQueryDepth doc 0 > 10
           then Some (DepthExceeded 10 (calculateQueryDepth doc 0))
         else if countAliases doc > 4
           then Some (TooManyAliases 4 (countAliases doc))
         else if 200 <s calculateQueryComplexity doc 1
           then Some (ComplexityExceeded 200 (calculateQueryComplexity doc 1))
         else None))"
proof (intro conjI impI)
  assume "queryString = []"
  then show "ValidateGraphQLQuery unmarshal parse queryString schema = None"
    by (simp add: ValidateGraphQLQuery_def)
next
  assume "parse (extractQueryText unmarshal queryString) = None"
  then show "ValidateGraphQLQuery unmarshal parse queryString schema = None"
    by (cases "queryString = []")
       (simp_all add: ValidateGraphQLQuery_analyze analyzeQueryText_def,
        simp add: ValidateGraphQLQuery_def)
next
  assume a: "queryString \<noteq> [] \<and> parse (extractQueryText unmarshal queryString) = Some doc"
  then have eq: "ValidateGraphQLQuery unmarshal parse queryString schema =
        (if hasIntrospection doc then Some IntrospectionDisabled
         else if calculateQueryDepth doc 0 > 10
           then Some (DepthExceeded 10 (calculateQueryDepth doc 0))
         else if countAliases doc > 4
           then Some (TooManyAliases 4 (countAliases doc))
         else if 200 <s calculateQueryComplexity doc 1
           then Some (ComplexityExceeded 200 (calculateQueryComplexity doc 1))
         else None)"
    by (simp add: ValidateGraphQLQuery_analyze analyzeQueryText_def)
  show "ValidateGraphQLQuery unmarshal parse queryString schema =
        (if hasIntrospection doc then Some IntrospectionDisabled
         else if calculateQueryDepth doc 0 > 10
           then Some (DepthExceeded 10 (calculateQueryDepth doc 0))
         else if countAliases doc > 4
           then Some (TooManyAliases 4 (countAliases doc))
         else if 200 <s calculateQueryComplexity doc 1
           then Some (ComplexityExceeded 200 (calculateQueryComplexity doc 1))
         else None)"
    by (rule eq)
  show "(ValidateGraphQLQuery unmarshal parse queryString schema \<noteq> None) =
         (hasIntrospection doc \<or> calculateQueryDepth doc 0 > 10 \<or> countAliases doc > 4
          \<or> 200 <s calculateQueryComplexity doc 1)"
    unfolding eq by simp
qed

text \<open>
  On a chain of eleven aliased fields the depth (11), the alias count (11) and the
  complexity (2047) are all above their limits; the depth check comes first and gives
  the reason.
\<close>

lemma deepAliased_values:
  "\<not> hasIntrospection deepAliased_doc"
  "calculateQueryDepth deepAliased_doc 0 = 11"
  "countAliases deepAliased_doc = 11"
  "calculateQueryComplexity deepAliased_doc 1 = 2047"
  by (simp_all add: deepAliased_doc_def scenario_defs eval_nat_numeral)

theorem ValidateGraphQLQuery_policy_witness:
  "ValidateGraphQLQuery (\<lambda>body. None)
     (\<lambda>text. if text = deepAliased_query then Some deepAliased_doc else None)
     deepAliased_query () = Some (DepthExceeded 10 11)"
  using ValidateGraphQLQuery_policy
    [of deepAliased_query "\<lambda>body. None"
        "\<lambda>text. if text = deepAliased_query then Some deepAliased_doc else None" "()"
        deepAliased_doc]
  by (simp add: extractQueryText_def deepAliased_values deepAliased_query_def)

text \<open>
  Claim C9. The result of \<^verbatim>\<open>ValidateGraphQLQuery\<close> depends only on the query
  string: any two schema values, of any type, give the same result.
\<close>

theorem ValidateGraphQLQuery_schema_independent:
  "ValidateGraphQLQuery unmarshal parse queryString (schema1 :: 'a) =
   ValidateGraphQLQuery unmarshal parse queryString (schema2 :: 'b)"
  by (simp add: ValidateGraphQLQuery_def)


section \<open>Complexity: homogeneity and the weighted sum\<close>

lemma selectionComplexity_all:
  assumes "\<And>sel. sel \<in> set sels \<Longrightarrow> selectionComplexity sel m = g sel"
  shows "calculateSelectionSetComplexity (SelectionSet sels) m = sum_list (map g sels)"
  unfolding calculateSelectionSetComplexity_sum
  by (rule arg_cong [where f = sum_list], rule map_cong [OF refl]) (rule assms)

lemma calculateSelectionSetComplexity_homogeneous:
  "calculateSelectionSetComplexity s m = m * calculateSelectionSetComplexity s 1"
proof (induction s arbitrary: m rule: hasIntrospectionInSelectionSet.induct)
  case (1 sels)
  have step: "selectionComplexity sel m = m * selectionComplexity sel 1"
    if "sel \<in> set sels" for sel
  proof (cases sel)
    case (Field_ast al nm selSet)
    show ?thesis
    proof (cases selSet)
      case None
      with Field_ast show ?thesis by (simp add: selectionComplexity_def)
    next
      case (Some s2)
      have a: "calculateSelectionSetComplexity s2 (m * 2)
          = m * 2 * calculateSelectionSetComplexity s2 1"
        using "1.IH"(1) [OF that Field_ast Some] .
      have b: "calculateSelectionSetComplexity s2 2
          = 2 * calculateSelectionSetComplexity s2 1"
        using "1.IH"(1) [OF that Field_ast Some, of 2] .
      show ?thesis
        using Field_ast Some a b
        by (simp add: selectionComplexity_def algebra_simps)
    qed
  next
    case (InlineFragment selSet)
    show ?thesis
    proof (cases selSet)
      case None
      with InlineFragment show ?thesis by (simp add: selectionComplexity_def)
    next
      case (Some s2)
      show ?thesis
        using InlineFragment Some "1.IH"(2) [OF that InlineFragment Some, of m]
        by (simp add: selectionComplexity_def)
    qed
  next
    case (FragmentSpread name)
    then show ?thesis by (simp add: selectionComplexity_def)
  qed
  have "calculateSelectionSetComplexity (SelectionSet sels) m
      = sum_list (map (\<lambda>sel. m * selectionComplexity sel 1) sels)"
    by (rule selectionComplexity_all) (rule step)
  also have "\<dots> = m * sum_list (map (\<lambda>sel. selectionComplexity sel 1) sels)"
    by (simp add: sum_list_const_mult)
  finally show ?case
    by (simp only: calculateSelectionSetComplexity_sum [of sels 1])
qed

lemma calculateQueryComplexity_homogeneous:
  "calculateQueryComplexity doc m = m * calculateQueryComplexity doc 1"
proof (induction doc)
  case (Document defs)
  have "sum_list (map (\<lambda>def. calculateQueryComplexity def m) defs)
      = sum_list (map (\<lambda>def. m * calculateQueryComplexity def 1) defs)"
    by (rule arg_cong [where f = sum_list], rule map_cong [OF refl]) (rule Document.IH)
  then show ?case
    unfolding calculateQueryComplexity_sum by (simp add: sum_list_const_mult)
next
  case (OperationDefinition selSet)
  then show ?case
    using calculateSelectionSetComplexity_homogeneous [of _ m]
    by (cases selSet) simp_all
next
  case (FragmentDefinition selSet)
  then show ?case
    using calculateSelectionSetComplexity_homogeneous [of _ m]
    by (cases selSet) simp_all
next
  case OtherNode
  show ?case by simp
qed

text \<open>
  Claim C10. The complexity is homogeneous in the base weight: for every document and
  every multiplier \<open>m\<close>, the complexity at \<open>m\<close> is \<open>m\<close> times the complexity
  at 1. The product is that of Go's \<^verbatim>\<open>int\<close>, as are the sums of the function.
\<close>

theorem complexity_homogeneous:
  "calculateQueryComplexity doc m = m * calculateQueryComplexity doc 1"
  by (rule calculateQueryComplexity_homogeneous)

lemma calculateSelectionSetComplexity_spec:
  "calculateSelectionSetComplexity s m = specSelectionSetComplexity s m"
proof (induction s arbitrary: m rule: hasIntrospectionInSelectionSet.induct)
  case (1 sels)
  have "calculateSelectionSetComplexity (SelectionSet sels) m
      = sum_list (map (\<lambda>selection.
        (case selection of
           Field_ast alias name None \<Rightarrow> m
         | Field_ast alias name (Some s) \<Rightarrow> m + specSelectionSetComplexity s (2 * m)
         | InlineFragment None \<Rightarrow> 0
         | InlineFragment (Some s) \<Rightarrow> specSelectionSetComplexity s m
         | FragmentSpread name \<Rightarrow> m)) sels)"
  proof (rule selectionComplexity_all)
    fix sel assume "sel \<in> set sels"
    then show "selectionComplexity sel m =
        (case sel of
           Field_ast alias name None \<Rightarrow> m
         | Field_ast alias name (Some s) \<Rightarrow> m + specSelectionSetComplexity s (2 * m)
         | InlineFragment None \<Rightarrow> 0
         | InlineFragment (Some s) \<Rightarrow> specSelectionSetComplexity s m
         | FragmentSpread name \<Rightarrow> m)"
      using "1.IH"
      by (auto simp: selectionComplexity_def mult.commute split: selection.split option.split)
  qed
  then show ?case by simp
qed

lemma calculateQueryComplexity_spec:
  "calculateQueryComplexity doc m = specQueryComplexity doc m"
proof (induction doc)
  case (Document defs)
  have "sum_list (map (\<lambda>def. calculateQueryComplexity def m) defs)
      = sum_list (map (\<lambda>def. specQueryComplexity def m) defs)"
    by (rule arg_cong [where f = sum_list], rule map_cong [OF refl]) (rule Document.IH)
  then show ?case
    unfolding calculateQueryComplexity_sum by simp
next
  case (OperationDefinition selSet)
  then show ?case
    by (cases selSet) (simp_all add: calculateSelectionSetComplexity_spec)
next
  case (FragmentDefinition selSet)
  then show ?case
    by (cases selSet) (simp_all add: calculateSelectionSetComplexity_spec)
next
  case OtherNode
  show ?case by simp
qed


text \<open>
  Claim C4. For every document and multiplier \<open>m\<close>, \<^verbatim>\<open>calculateQueryComplexity\<close>
  is the sum over all top-level definitions and all branches in which, within a
  selection set at multiplier \<open>m\<close>, each field adds \<open>m\<close> and, when it has a
  selection set, that set's complexity at \<open>2 * m\<close>; an inline fragment adds its
  selection set's complexity at \<open>m\<close>; a fragment spread adds \<open>m\<close> and is not
  expanded. Sums and products are those of Go's \<^verbatim>\<open>int\<close>.
\<close>

theorem complexity_is_weighted_sum:
  "calculateQueryComplexity doc m = specQueryComplexity doc m \<and>
   calculateSelectionSetComplexity s m = specSelectionSetComplexity s m"
  by (simp only: calculateQueryComplexity_spec calculateSelectionSetComplexity_spec)


section \<open>Depth as the maximum over the tree\<close>

lemma Max_insert_image_cong:
  fixes d :: "'a::linorder"
  assumes "\<And>x. x \<in> set xs \<Longrightarrow> max d (f x) = max d (g x)"
  shows "Max (insert d (f ` set xs)) = Max (insert d (g ` set xs))"
  using assms
proof (induction xs)
  case Nil
  show ?case by simp
next
  case (Cons x xs)
  let ?M = "Max (insert d (f ` set xs))"
  let ?N = "Max (insert d (g ` set xs))"
  have MN: "?M = ?N" using Cons by simp
  have dM: "max d ?M = ?M" by (simp add: max_absorb2)
  have "Max (insert d (f ` set (x # xs))) = max (f x) ?M"
    by (simp add: insert_commute [of d])
  also have "\<dots> = max (max d (f x)) ?M"
    using dM by (metis max.assoc max.commute)
  also have "\<dots> = max (max d (g x)) ?M"
    using Cons.prems [of x] by simp
  also have "\<dots> = max (g x) ?N"
    using dM MN by (metis max.assoc max.commute)
  also have "\<dots> = Max (insert d (g ` set (x # xs)))"
    by (simp add: insert_commute [of d])
  finally show ?case .
qed

lemma specSelectionSetDepth_ge: "d \<le> specSelectionSetDepth s d"
  by (cases s) simp

lemma calculateSelectionSetDepth_ge: "d \<le> calculateSelectionSetDepth s d"
  by (cases s) (simp add: calculateSelectionSetDepth_Max del: calculateSelectionSetDepth.simps)

lemma calculateSelectionSetDepth_spec:
  "0 \<le> d \<Longrightarrow> calculateSelectionSetDepth s d = specSelectionSetDepth s d"
proof (induction s arbitrary: d rule: hasIntrospectionInSelectionSet.induct)
  case (1 sels)
  have "Max (insert d ((\<lambda>sel. selectionDepth sel d) ` set sels))
      = Max (insert d ((\<lambda>selection.
        (case selection of
           Field_ast alias name None \<Rightarrow> d + 1
         | Field_ast alias name (Some s) \<Rightarrow> specSelectionSetDepth s (d + 1)
         | InlineFragment None \<Rightarrow> d
         | InlineFragment (Some s) \<Rightarrow> specSelectionSetDepth s d
         | FragmentSpread name \<Rightarrow> d)) ` set sels))"
  proof (rule Max_insert_image_cong)
    fix sel assume "sel \<in> set sels"
    then show "max d (selectionDepth sel d) = max d
        (case sel of
           Field_ast alias name None \<Rightarrow> d + 1
         | Field_ast alias name (Some s) \<Rightarrow> specSelectionSetDepth s (d + 1)
         | InlineFragment None \<Rightarrow> d
         | InlineFragment (Some s) \<Rightarrow> specSelectionSetDepth s d
         | FragmentSpread name \<Rightarrow> d)"
      using "1.IH" "1.prems"
      by (auto simp: selectionDepth_def split: selection.split option.split)
  qed
  then show ?case
    by (simp only: calculateSelectionSetDepth_Max specSelectionSetDepth.simps)
qed

lemma calculateQueryDepth_spec:
  "0 \<le> d \<Longrightarrow> calculateQueryDepth doc d = specQueryDepth doc d"
proof (induction doc)
  case (Document defs)
  have "(\<lambda>def. calculateQueryDepth def d) ` set defs = (\<lambda>def. specQueryDepth def d) ` set defs"
    by (rule image_cong [OF refl]) (simp add: Document)
  then show ?case
    by (simp only: calculateQueryDepth_Max specQueryDepth.simps)
next
  case (OperationDefinition selSet)
  then show ?case
    by (cases selSet)
       (auto simp: calculateSelectionSetDepth_spec Let_def not_less
          intro: order.antisym specSelectionSetDepth_ge)
next
  case (FragmentDefinition selSet)
  then show ?case
    by (cases selSet)
       (auto simp: calculateSelectionSetDepth_spec Let_def not_less
          intro: order.antisym specSelectionSetDepth_ge)
next
  case OtherNode
  show ?case by simp
qed

text \<open>
  Claim C3. For every document, \<^verbatim>\<open>calculateQueryDepth(document, 0)\<close> is the maximum
  over the tree that the specification describes: every top-level definition's selection
  set is evaluated at the definition's own depth; within a selection set at depth \<open>d\<close>
  a field without nested selections contributes \<open>d + 1\<close>, a field with nested selections
  the depth of its selection set at \<open>d + 1\<close>, an inline fragment the depth of its
  selection set at \<open>d\<close>, a fragment spread \<open>d\<close>; a document with no definitions
  yields 0. The selection sets below the document are all evaluated at a depth that is
  not negative, where the two functions agree as well.
\<close>

theorem depth_is_maximum:
  "calculateQueryDepth doc 0 = specQueryDepth doc 0 \<and>
   calculateQueryDepth (Document []) 0 = 0 \<and>
   (0 \<le> d \<longrightarrow> calculateSelectionSetDepth s d = specSelectionSetDepth s d)"
  by (simp add: calculateQueryDepth_spec calculateSelectionSetDepth_spec
      del: calculateSelectionSetDepth.simps calculateQueryDepth.simps specSelectionSetDepth.simps)


text \<open>
  From a negative starting depth the two differ: an inline fragment without a selection
  set leaves the local \<^verbatim>\<open>depth\<close> of the loop at zero, which is then the maximum.
\<close>

lemma depth_negative_start_example:
  "calculateSelectionSetDepth (SelectionSet [InlineFragment None]) (- 1) = 0 \<and>
   specSelectionSetDepth (SelectionSet [InlineFragment None]) (- 1) = - 1"
  by simp

theorem depth_is_maximum_witness:
  "(0::int) \<le> 3 \<and>
   calculateSelectionSetDepth (SelectionSet [InlineFragment None, composite ''a'' [leaf ''b'']]) 3 = 5 \<and>
   specSelectionSetDepth (SelectionSet [InlineFragment None, composite ''a'' [leaf ''b'']]) 3 = 5 \<and>
   calculateQueryDepth scenarioB_doc 0 = specQueryDepth scenarioB_doc 0"
  using depth_is_maximum
    [of scenarioB_doc 3 "SelectionSet [InlineFragment None, composite ''a'' [leaf ''b'']]"]
  by (simp add: scenario_defs)

section \<open>Introspection\<close>

lemma hasIntrospectionInSelectionSet_fields:
  "hasIntrospectionInSelectionSet s = (\<exists>f \<in> set (selectionSetFields s). isIntrospectionField f)"
proof (induction s rule: hasIntrospectionInSelectionSet.induct)
  case (1 sels)
  have "(case sel of
           Field_ast al nm selSet \<Rightarrow>
             (case nm of
                Some fieldName \<Rightarrow> fieldName = ''__schema'' \<or> fieldName = ''__type''
              | None \<Rightarrow> False)
             \<or> (case selSet of
                  Some s \<Rightarrow> hasIntrospectionInSelectionSet s
                | None \<Rightarrow> False)
         | InlineFragment selSet \<Rightarrow>
             (case selSet of
                Some s \<Rightarrow> hasIntrospectionInSelectionSet s
              | None \<Rightarrow> False)
         | FragmentSpread nm \<Rightarrow> False)
      = (\<exists>f \<in> set (case sel of
           Field_ast al nm selSet \<Rightarrow>
             sel # (case selSet of Some s \<Rightarrow> selectionSetFields s | None \<Rightarrow> [])
         | InlineFragment selSet \<Rightarrow>
             (case selSet of Some s \<Rightarrow> selectionSetFields s | None \<Rightarrow> [])
         | FragmentSpread nm \<Rightarrow> []). isIntrospectionField f)"
    if "sel \<in> set sels" for sel
    using that "1.IH"
    by (auto split: selection.split option.split
        simp del: hasIntrospectionInSelectionSet.simps selectionSetFields.simps)
  then show ?case
    by (simp add: list_ex_iff)
qed

lemma hasIntrospection_fields:
  "hasIntrospection doc = (\<exists>f \<in> set (documentFields doc). isIntrospectionField f)"
proof (induction doc)
  case (Document defs)
  then show ?case by (simp add: list_ex_iff)
next
  case (OperationDefinition selSet)
  then show ?case
    by (cases selSet) (simp_all add: hasIntrospectionInSelectionSet_fields del: hasIntrospectionInSelectionSet.simps selectionSetFields.simps)
next
  case (FragmentDefinition selSet)
  then show ?case
    by (cases selSet) (simp_all add: hasIntrospectionInSelectionSet_fields del: hasIntrospectionInSelectionSet.simps selectionSetFields.simps)
next
  case OtherNode
  show ?case by simp
qed

text \<open>
  Claim C5. \<^verbatim>\<open>hasIntrospection\<close> is true if and only if some Field node, at any
  nesting depth under any top-level definition and reachable without expanding fragment
  spreads (the bodies of inline fragments are searched), is named exactly
  \<^verbatim>\<open>__schema\<close> or exactly \<^verbatim>\<open>__type\<close>; when it is true of the parsed document,
  \<^verbatim>\<open>ValidateGraphQLQuery\<close> rejects with the introspection reason, whatever the
  depth, the alias count and the complexity are.
\<close>

theorem introspection_detected_and_rejected:
  "(hasIntrospection doc = (\<exists>f \<in> set (documentFields doc). isIntrospectionField f)) \<and>
   (queryString \<noteq> [] \<and> parse (extractQueryText unmarshal queryString) = Some doc \<and>
    hasIntrospection doc \<longrightarrow>
      ValidateGraphQLQuery unmarshal parse queryString schema = Some IntrospectionDisabled)"
  using hasIntrospection_fields [of doc]
  by (simp add: ValidateGraphQLQuery_analyze analyzeQueryText_def)

theorem introspection_detected_and_rejected_witness:
  "hasIntrospection scenarioD_doc \<and>
   (\<exists>f \<in> set (documentFields scenarioD_doc). isIntrospectionField f) \<and>
   ValidateGraphQLQuery (\<lambda>body. None)
     (\<lambda>text. if text = scenarioD_query then Some scenarioD_doc else None)
     scenarioD_query () = Some IntrospectionDisabled"
  using introspection_detected_and_rejected
    [of scenarioD_doc scenarioD_query
        "\<lambda>text. if text = scenarioD_query then Some scenarioD_doc else None"
        "\<lambda>body. None" "()"]
  by (simp add: scenarioD_doc_def scenarioD_query_def scenario_defs extractQueryText_def)

section \<open>Aliases\<close>

lemma sum_list_length_filter_concat:
  assumes "\<And>x. x \<in> set xs \<Longrightarrow> f x = int (length (filter P (g x)))"
  shows "sum_list (map f xs) = int (length (filter P (concat (map g xs))))"
  using assms by (induction xs) simp_all

lemma countSelectionSetAliases_fields:
  "countSelectionSetAliases s = int (length (filter hasAlias (selectionSetFields s)))"
proof (induction s rule: hasIntrospectionInSelectionSet.induct)
  case (1 sels)
  have "sum_list (map selectionAliases sels)
      = int (length (filter hasAlias (concat (map (\<lambda>selection.
        (case selection of
           Field_ast al nm selSet \<Rightarrow>
             selection # (case selSet of Some s \<Rightarrow> selectionSetFields s | None \<Rightarrow> [])
         | InlineFragment selSet \<Rightarrow>
             (case selSet of Some s \<Rightarrow> selectionSetFields s | None \<Rightarrow> [])
         | FragmentSpread nm \<Rightarrow> [])) sels))))"
  proof (rule sum_list_length_filter_concat)
    fix sel assume "sel \<in> set sels"
    then show "selectionAliases sel = int (length (filter hasAlias
        (case sel of
           Field_ast al nm selSet \<Rightarrow>
             sel # (case selSet of Some s \<Rightarrow> selectionSetFields s | None \<Rightarrow> [])
         | InlineFragment selSet \<Rightarrow>
             (case selSet of Some s \<Rightarrow> selectionSetFields s | None \<Rightarrow> [])
         | FragmentSpread nm \<Rightarrow> [])))"
      using "1.IH"
      by (auto simp: selectionAliases_def split: selection.split option.split
          simp del: countSelectionSetAliases.simps selectionSetFields.simps)
  qed
  then show ?case
    by (simp only: countSelectionSetAliases_sum selectionSetFields.simps)
qed

lemma countAliases_fields:
  "countAliases doc = int (length (filter hasAlias (documentFields doc)))"
proof (induction doc)
  case (Document defs)
  have "sum_list (map countAliases defs)
      = int (length (filter hasAlias (concat (map documentFields defs))))"
    by (rule sum_list_length_filter_concat) (rule Document.IH)
  then show ?case
    by (simp only: countAliases_sum documentFields.simps)
next
  case (OperationDefinition selSet)
  then show ?case
    by (cases selSet) (simp_all add: countSelectionSetAliases_fields del: countSelectionSetAliases.simps selectionSetFields.simps)
next
  case (FragmentDefinition selSet)
  then show ?case
    by (cases selSet) (simp_all add: countSelectionSetAliases_fields del: countSelectionSetAliases.simps selectionSetFields.simps)
next
  case OtherNode
  show ?case by simp
qed

lemma scenarioC_values:
  "\<not> hasIntrospection scenarioC_doc"
  "calculateQueryDepth scenarioC_doc 0 = 2"
  "countAliases scenarioC_doc = 5"
  by (simp_all add: scenarioC_doc_def scenario_defs)

text \<open>
  Claim C6. For every document, \<^verbatim>\<open>countAliases\<close> is the number of Field nodes (at
  any nesting level, under any top-level definition, inside inline fragments, without
  expanding fragment spreads) whose alias is present and non-empty. The document of
  scenario C, with five aliased fields, has alias count 5 and is rejected with the alias
  reason, limit 4 and actual 5.
\<close>

theorem aliases_counted_and_limited:
  "countAliases doc = int (length (filter hasAlias (documentFields doc))) \<and>
   countAliases scenarioC_doc = 5 \<and>
   (unmarshal scenarioC_query = None \<and> parse scenarioC_query = Some scenarioC_doc \<longrightarrow>
      ValidateGraphQLQuery unmarshal parse scenarioC_query schema = Some (TooManyAliases 4 5))"
proof (intro conjI impI)
  show "countAliases doc = int (length (filter hasAlias (documentFields doc)))"
    by (rule countAliases_fields)
  show "countAliases scenarioC_doc = 5"
    by (rule scenarioC_values)
  assume a: "unmarshal scenarioC_query = None \<and> parse scenarioC_query = Some scenarioC_doc"
  have ne: "scenarioC_query \<noteq> []" by (simp add: scenarioC_query_def)
  show "ValidateGraphQLQuery unmarshal parse scenarioC_query schema = Some (TooManyAliases 4 5)"
    using a by (simp add: ValidateGraphQLQuery_analyze [OF ne] analyzeQueryText_def
        extractQueryText_def scenarioC_values)
qed

theorem aliases_counted_and_limited_witness:
  "countAliases scenarioC_doc = int (length (filter hasAlias (documentFields scenarioC_doc))) \<and>
   length (filter hasAlias (documentFields scenarioC_doc)) = 5 \<and>
   ValidateGraphQLQuery (\<lambda>body. None)
     (\<lambda>text. if text = scenarioC_query then Some scenarioC_doc else None)
     scenarioC_query () = Some (TooManyAliases 4 5)"
  using aliases_counted_and_limited
    [of scenarioC_doc "\<lambda>body. None"
        "\<lambda>text. if text = scenarioC_query then Some scenarioC_doc else None" "()"]
  by (simp add: scenarioC_doc_def scenario_defs)


section \<open>The query text that is analyzed\<close>

text \<open>
  Claim C7. When the request body decodes as a JSON object whose \<^verbatim>\<open>query\<close> member
  is a string, that string is the query text that is parsed and analyzed; otherwise the
  whole body is. The body of scenario F is analyzed as the query \<^verbatim>\<open>{ hello }\<close>: the
  result is the verdict on that text, and the parser is consulted on no other text. The
  query string is not empty here: the empty string is allowed before any decoding.
\<close>

theorem query_text_extraction:
  assumes "queryString \<noteq> []"
  shows
  "(\<forall>obj q. unmarshal queryString = Some obj \<and> obj ''query'' = Some (JString q) \<longrightarrow>
      ValidateGraphQLQuery unmarshal parse queryString schema = analyzeQueryText parse q) \<and>
   (unmarshal queryString = None \<or>
    (\<exists>obj. unmarshal queryString = Some obj \<and> (\<forall>q. obj ''query'' \<noteq> Some (JString q))) \<longrightarrow>
      ValidateGraphQLQuery unmarshal parse queryString schema = analyzeQueryText parse queryString) \<and>
   (\<forall>obj. unmarshal scenarioF_body = Some obj \<and> obj ''query'' = Some (JString ''{ hello }'') \<longrightarrow>
      ValidateGraphQLQuery unmarshal parse scenarioF_body schema =
        analyzeQueryText parse ''{ hello }'' \<and>
      (\<forall>parse'. parse' ''{ hello }'' = parse ''{ hello }'' \<longrightarrow>
         ValidateGraphQLQuery unmarshal parse' scenarioF_body schema =
         ValidateGraphQLQuery unmarshal parse scenarioF_body schema))"
proof (intro conjI allI impI)
  fix obj q
  assume "unmarshal queryString = Some obj \<and> obj ''query'' = Some (JString q)"
  then show "ValidateGraphQLQuery unmarshal parse queryString schema = analyzeQueryText parse q"
    by (simp add: ValidateGraphQLQuery_analyze [OF assms] extractQueryText_def)
next
  assume "unmarshal queryString = None \<or>
    (\<exists>obj. unmarshal queryString = Some obj \<and> (\<forall>q. obj ''query'' \<noteq> Some (JString q)))"
  then have "extractQueryText unmarshal queryString = queryString"
    by (auto simp: extractQueryText_def split: option.split json_value.split)
  then show "ValidateGraphQLQuery unmarshal parse queryString schema =
      analyzeQueryText parse queryString"
    by (simp add: ValidateGraphQLQuery_analyze [OF assms])
next
  fix obj
  assume a: "unmarshal scenarioF_body = Some obj \<and> obj ''query'' = Some (JString ''{ hello }'')"
  have ne: "scenarioF_body \<noteq> []" by (simp add: scenarioF_body_def)
  from a have t: "extractQueryText unmarshal scenarioF_body = ''{ hello }''"
    by (simp add: extractQueryText_def)
  show "ValidateGraphQLQuery unmarshal parse scenarioF_body schema =
      analyzeQueryText parse ''{ hello }''"
    by (simp only: ValidateGraphQLQuery_analyze [OF ne] t)
  fix parse' :: "string \<Rightarrow> node option"
  assume "parse' ''{ hello }'' = parse ''{ hello }''"
  then show "ValidateGraphQLQuery unmarshal parse' scenarioF_body schema =
         ValidateGraphQLQuery unmarshal parse scenarioF_body schema"
    by (simp only: ValidateGraphQLQuery_analyze [OF ne] t analyzeQueryText_def)
qed

theorem query_text_extraction_witness:
  "scenarioF_body \<noteq> [] \<and>
   scenarioF_unmarshal scenarioF_body = Some [''query'' \<mapsto> JString ''{ hello }''] \<and>
   ValidateGraphQLQuery scenarioF_unmarshal scenarioF_parse scenarioF_body () = None \<and>
   analyzeQueryText scenarioF_parse ''{ hello }'' = None \<and>
   analyzeQueryText scenarioF_parse scenarioF_body = Some IntrospectionDisabled"
proof -
  have ne: "scenarioF_body \<noteq> []" by (simp add: scenarioF_body_def)
  have u: "scenarioF_unmarshal scenarioF_body = Some [''query'' \<mapsto> JString ''{ hello }'']"
    by (simp add: scenarioF_unmarshal_def)
  have a: "analyzeQueryText scenarioF_parse ''{ hello }'' = None"
    by (simp add: analyzeQueryText_def scenarioF_parse_def scenarioA_query_def
        scenarioA_doc_def scenario_defs word_sless_alt)
  have b: "analyzeQueryText scenarioF_parse scenarioF_body = Some IntrospectionDisabled"
    by (simp add: analyzeQueryText_def scenarioF_parse_def scenarioA_query_def
        scenarioF_body_def scenarioD_doc_def scenario_defs)
  show ?thesis
    using query_text_extraction [OF ne, of scenarioF_unmarshal scenarioF_parse "()"] ne u a b
    by simp
qed

section \<open>Scenario B\<close>

lemma scenarioB_values:
  "\<not> hasIntrospection scenarioB_doc"
  "calculateQueryDepth scenarioB_doc 0 = 6"
  "countAliases scenarioB_doc = 0"
  "calculateQueryComplexity scenarioB_doc 1 = 63"
  by (simp_all add: scenarioB_doc_def scenario_defs)

text \<open>
  Claim C2 says that the document of the query
  \<^verbatim>\<open>{ a { b { c { d { e { f } } } } } }\<close> has depth 11 and is rejected with the
  depth reason, limit 10 and actual 11. The code computes depth 6 (five composite fields
  around one leaf), which is within the limit, and allows the query.
\<close>

theorem scenarioB_counterexample:
  "calculateQueryDepth scenarioB_doc 0 \<noteq> 11 \<and>
   ValidateGraphQLQuery (\<lambda>body. None) scenarioB_parse scenarioB_query ()
     \<noteq> Some (DepthExceeded 10 11)"
  by (simp add: scenarioB_values ValidateGraphQLQuery_def scenarioB_parse_def scenarioB_query_def
      word_sless_alt)

text \<open>
  Claim C2, amended: the depth of that document is 6, and
  \<^verbatim>\<open>ValidateGraphQLQuery\<close> allows the query (its alias count is 0 and its
  complexity 63).
\<close>

theorem scenarioB_allowed:
  "calculateQueryDepth scenarioB_doc 0 = 6 \<and>
   (unmarshal scenarioB_query = None \<and> parse scenarioB_query = Some scenarioB_doc \<longrightarrow>
      ValidateGraphQLQuery unmarshal parse scenarioB_query schema = None)"
proof (intro conjI impI)
  show "calculateQueryDepth scenarioB_doc 0 = 6" by (rule scenarioB_values)
  assume a: "unmarshal scenarioB_query = None \<and> parse scenarioB_query = Some scenarioB_doc"
  have ne: "scenarioB_query \<noteq> []" by (simp add: scenarioB_query_def)
  show "ValidateGraphQLQuery unmarshal parse scenarioB_query schema = None"
    using a by (simp add: ValidateGraphQLQuery_analyze [OF ne] analyzeQueryText_def
        extractQueryText_def scenarioB_values word_sless_alt)
qed

theorem scenarioB_allowed_witness:
  "calculateQueryDepth scenarioB_doc 0 = 6 \<and>
   scenarioB_parse scenarioB_query = Some scenarioB_doc \<and>
   ValidateGraphQLQuery (\<lambda>body. None) scenarioB_parse scenarioB_query () = None"
  using scenarioB_allowed [of "\<lambda>body. None" scenarioB_parse "()"]
  by (simp add: scenarioB_parse_def)

section \<open>Depth and alias count stay within the size of the tree\<close>

text \<open>
  From a starting depth that is not negative the depth lies between that depth and that
  depth plus the number of Field nodes; the alias count lies between 0 and the number of
  Field nodes. Neither can leave the range of a 64-bit integer on a tree that fits in
  memory, which is why both are computed in \<open>int\<close>.
\<close>

lemma length_le_length_concat_map:
  "x \<in> set xs \<Longrightarrow> length (g x) \<le> length (concat (map g xs))"
  by (induction xs) auto

lemma calculateSelectionSetDepth_upper:
  "0 \<le> d \<Longrightarrow> calculateSelectionSetDepth s d \<le> d + int (length (selectionSetFields s))"
proof (induction s arbitrary: d rule: hasIntrospectionInSelectionSet.induct)
  case (1 sels)
  let ?g = "\<lambda>selection.
        (case selection of
           Field_ast al nm selSet \<Rightarrow>
             selection # (case selSet of Some s \<Rightarrow> selectionSetFields s | None \<Rightarrow> [])
         | InlineFragment selSet \<Rightarrow>
             (case selSet of Some s \<Rightarrow> selectionSetFields s | None \<Rightarrow> [])
         | FragmentSpread nm \<Rightarrow> [])"
  let ?B = "d + int (length (concat (map ?g sels)))"
  have "a \<le> ?B" if "a \<in> insert d ((\<lambda>sel. selectionDepth sel d) ` set sels)" for a
  proof (cases "a = d")
    case True
    then show ?thesis by simp
  next
    case False
    with that obtain sel where sel: "sel \<in> set sels" "a = selectionDepth sel d"
      by auto
    have "selectionDepth sel d \<le> d + int (length (?g sel))"
    proof (cases sel)
      case (Field_ast al nm selSet)
      show ?thesis
      proof (cases selSet)
        case None
        with Field_ast show ?thesis by (simp add: selectionDepth_def)
      next
        case (Some s2)
        have "calculateSelectionSetDepth s2 (d + 1)
            \<le> (d + 1) + int (length (selectionSetFields s2))"
          using "1.prems" by (intro "1.IH"(1) [OF sel(1) Field_ast Some]) simp
        with Field_ast Some show ?thesis
          by (simp add: selectionDepth_def
              del: calculateSelectionSetDepth.simps selectionSetFields.simps)
      qed
    next
      case (InlineFragment selSet)
      show ?thesis
      proof (cases selSet)
        case None
        with InlineFragment "1.prems" show ?thesis by (simp add: selectionDepth_def)
      next
        case (Some s2)
        have "calculateSelectionSetDepth s2 d \<le> d + int (length (selectionSetFields s2))"
          using "1.prems" by (intro "1.IH"(2) [OF sel(1) InlineFragment Some])
        with InlineFragment Some show ?thesis
          by (simp add: selectionDepth_def
              del: calculateSelectionSetDepth.simps selectionSetFields.simps)
      qed
    next
      case (FragmentSpread nm)
      then show ?thesis by (simp add: selectionDepth_def)
    qed
    moreover have "length (?g sel) \<le> length (concat (map ?g sels))"
      using sel(1) by (rule length_le_length_concat_map)
    ultimately show ?thesis using sel(2) by linarith
  qed
  then have "Max (insert d ((\<lambda>sel. selectionDepth sel d) ` set sels)) \<le> ?B"
    by (simp del: Max_insert)
  then show ?case
    by (simp only: calculateSelectionSetDepth_Max selectionSetFields.simps)
qed

lemma calculateQueryDepth_bounds:
  "0 \<le> d \<Longrightarrow>
   d \<le> calculateQueryDepth doc d \<and>
   calculateQueryDepth doc d \<le> d + int (length (documentFields doc))"
proof (induction doc)
  case (Document defs)
  let ?B = "d + int (length (concat (map documentFields defs)))"
  have "a \<le> ?B" if "a \<in> insert d ((\<lambda>def. calculateQueryDepth def d) ` set defs)" for a
  proof (cases "a = d")
    case True
    then show ?thesis by simp
  next
    case False
    with that obtain def where def: "def \<in> set defs" "a = calculateQueryDepth def d"
      by auto
    have "calculateQueryDepth def d \<le> d + int (length (documentFields def))"
      using def(1) Document by simp
    moreover have "length (documentFields def) \<le> length (concat (map documentFields defs))"
      using def(1) by (rule length_le_length_concat_map)
    ultimately show ?thesis using def(2) by linarith
  qed
  then have "Max (insert d ((\<lambda>def. calculateQueryDepth def d) ` set defs)) \<le> ?B"
    by (simp del: Max_insert)
  moreover have "d \<le> Max (insert d ((\<lambda>def. calculateQueryDepth def d) ` set defs))"
    by (simp del: Max_insert)
  ultimately show ?case
    by (simp only: calculateQueryDepth_Max documentFields.simps)
next
  case (OperationDefinition selSet)
  then show ?case
    using calculateSelectionSetDepth_upper [of d]
    by (cases selSet) (auto simp: Let_def simp del: calculateSelectionSetDepth.simps selectionSetFields.simps)
next
  case (FragmentDefinition selSet)
  then show ?case
    using calculateSelectionSetDepth_upper [of d]
    by (cases selSet) (auto simp: Let_def simp del: calculateSelectionSetDepth.simps selectionSetFields.simps)
next
  case OtherNode
  show ?case by simp
qed

lemma countAliases_bounds:
  "0 \<le> countAliases doc \<and> countAliases doc \<le> int (length (documentFields doc))"
  by (simp add: countAliases_fields)

section \<open>Adding a sibling leaf field\<close>

lemma sum_list_map_insert:
  fixes f :: "'a \<Rightarrow> 'b::comm_monoid_add"
  shows "sum_list (map f (take n xs @ [y] @ drop n xs)) = sum_list (map f xs) + f y"
proof -
  have "sum_list (map f (take n xs)) + sum_list (map f (drop n xs))
      = sum_list (map f (take n xs @ drop n xs))"
    by (simp del: append_take_drop_id)
  then have "sum_list (map f (take n xs)) + sum_list (map f (drop n xs)) = sum_list (map f xs)"
    by simp
  then have h: "sum_list (map f (take n xs)) + sum_list (map f (drop n xs)) = sum_list (map f xs)"
    .
  have "sum_list (map f (take n xs @ [y] @ drop n xs))
      = (sum_list (map f (take n xs)) + sum_list (map f (drop n xs))) + f y"
    by (simp add: ac_simps)
  then show ?thesis
    by (simp only: h)
qed

lemma sum_list_map_update:
  fixes f :: "'a \<Rightarrow> 'b::ab_group_add"
  assumes "i < length xs"
  shows "sum_list (map f (xs[i := y])) = sum_list (map f xs) - f (xs ! i) + f y"
proof -
  have "sum_list (map f (xs[i := y]))
      = sum_list (map f (take i xs)) + f y + sum_list (map f (drop (Suc i) xs))"
    by (simp add: upd_conv_take_nth_drop [OF assms])
  moreover have "sum_list (map f xs)
      = sum_list (map f (take i xs)) + f (xs ! i) + sum_list (map f (drop (Suc i) xs))"
    by (subst id_take_nth_drop [OF assms]) (simp del: append_take_drop_id)
  ultimately show ?thesis by simp
qed

lemma Max_insert_image_insert_mono:
  fixes d :: "'a::linorder"
  shows "Max (insert d (f ` set xs)) \<le> Max (insert d (f ` set (take n xs @ [y] @ drop n xs)))"
proof (rule Max_mono)
  have "set xs = set (take n xs) \<union> set (drop n xs)"
    by (simp flip: set_append)
  then show "insert d (f ` set xs) \<subseteq> insert d (f ` set (take n xs @ [y] @ drop n xs))"
    by auto
qed simp_all

lemma Max_insert_image_update_mono:
  fixes d :: "'a::linorder"
  assumes "i < length xs" and "f (xs ! i) \<le> f y"
  shows "Max (insert d (f ` set xs)) \<le> Max (insert d (f ` set (xs[i := y])))"
proof -
  let ?B = "insert d (f ` set (xs[i := y]))"
  have fin: "finite ?B" by simp
  have y: "f y \<in> ?B" using assms(1) by (simp add: set_update_memI)
  have "a \<le> Max ?B" if "a \<in> insert d (f ` set xs)" for a
  proof (cases "a = d")
    case True
    then show ?thesis by simp
  next
    case False
    with that obtain j where j: "j < length xs" "a = f (xs ! j)"
      by (auto simp: in_set_conv_nth)
    show ?thesis
    proof (cases "j = i")
      case True
      with j assms(2) have "a \<le> f y" by simp
      also have "f y \<le> Max ?B" using fin y by (rule Max_ge)
      finally show ?thesis .
    next
      case False
      with j have "xs ! j = xs[i := y] ! j" by simp
      moreover have "xs[i := y] ! j \<in> set (xs[i := y])" using j by simp
      ultimately have "a \<in> ?B" using j by auto
      with fin show ?thesis by (rule Max_ge)
    qed
  qed
  then show ?thesis by (simp del: Max_insert)
qed

lemma insertLeaf_aliases:
  "insertLeaf path pos new s = Some s' \<Longrightarrow>
   countSelectionSetAliases s' = countSelectionSetAliases s + selectionAliases new"
proof (induction path pos new s arbitrary: s' rule: insertLeaf.induct)
  case (1 pos new sels)
  then show ?case
    by (auto simp only: insertLeaf.simps countSelectionSetAliases_sum sum_list_map_insert
        split: if_splits)
next
  case (2 i path pos new sels)
  from "2.prems" have i: "i < length sels"
    by (simp split: if_splits)
  show ?case
  proof (cases "sels ! i")
    case (Field_ast al nm selSet)
    with "2.prems" i obtain s2 s2' where
      s2: "selSet = Some s2" "insertLeaf path pos new s2 = Some s2'"
        "s' = SelectionSet (sels[i := Field_ast al nm (Some s2')])"
      by (auto split: option.splits)
    have "countSelectionSetAliases s2' = countSelectionSetAliases s2 + selectionAliases new"
      using "2.IH"(1) [OF i Field_ast s2(1) s2(2)] .
    then show ?thesis
      using i Field_ast s2
      by (simp add: countSelectionSetAliases_sum sum_list_map_update selectionAliases_def
          del: countSelectionSetAliases.simps)
  next
    case (InlineFragment selSet)
    with "2.prems" i obtain s2 s2' where
      s2: "selSet = Some s2" "insertLeaf path pos new s2 = Some s2'"
        "s' = SelectionSet (sels[i := InlineFragment (Some s2')])"
      by (auto split: option.splits)
    have "countSelectionSetAliases s2' = countSelectionSetAliases s2 + selectionAliases new"
      using "2.IH"(2) [OF i InlineFragment s2(1) s2(2)] .
    then show ?thesis
      using i InlineFragment s2
      by (simp add: countSelectionSetAliases_sum sum_list_map_update selectionAliases_def
          del: countSelectionSetAliases.simps)
  next
    case (FragmentSpread nm)
    with "2.prems" i show ?thesis by simp
  qed
qed


lemma insertLeaf_cases [consumes 1, case_names Here Field Inline]:
  assumes "insertLeaf path pos new s = Some s'"
  obtains
    sels where "path = []" "s = SelectionSet sels" "pos \<le> length sels"
      "s' = SelectionSet (take pos sels @ [new] @ drop pos sels)"
  | i rest sels al nm s2 s2' where "path = i # rest" "s = SelectionSet sels" "i < length sels"
      "sels ! i = Field_ast al nm (Some s2)" "insertLeaf rest pos new s2 = Some s2'"
      "s' = SelectionSet (sels[i := Field_ast al nm (Some s2')])"
  | i rest sels s2 s2' where "path = i # rest" "s = SelectionSet sels" "i < length sels"
      "sels ! i = InlineFragment (Some s2)" "insertLeaf rest pos new s2 = Some s2'"
      "s' = SelectionSet (sels[i := InlineFragment (Some s2')])"
proof (cases s)
  case (SelectionSet sels)
  show ?thesis
  proof (cases path)
    case Nil
    with assms SelectionSet that(1) show ?thesis
      by (simp split: if_splits)
  next
    case (Cons i rest)
    with assms SelectionSet that(2,3) show ?thesis
      by (auto split: if_splits selection.splits option.splits)
  qed
qed

lemma insertLeafNode_cases [consumes 1, case_names Document Operation Fragment]:
  assumes "insertLeafNode ks path pos al nm doc = Some doc'"
  obtains
    k rest defs d' where "ks = k # rest" "doc = Document defs" "k < length defs"
      "insertLeafNode rest path pos al nm (defs ! k) = Some d'" "doc' = Document (defs[k := d'])"
  | s s' where "ks = []" "doc = OperationDefinition (Some s)"
      "insertLeaf path pos (Field_ast al nm None) s = Some s'"
      "doc' = OperationDefinition (Some s')"
  | s s' where "ks = []" "doc = FragmentDefinition (Some s)"
      "insertLeaf path pos (Field_ast al nm None) s = Some s'"
      "doc' = FragmentDefinition (Some s')"
proof (cases doc)
  case (Document defs)
  with assms that(1) show ?thesis
    by (cases ks) (auto split: if_splits option.splits)
next
  case (OperationDefinition selSet)
  with assms that(2) show ?thesis
    by (cases ks; cases selSet) (auto split: option.splits)
next
  case (FragmentDefinition selSet)
  with assms that(3) show ?thesis
    by (cases ks; cases selSet) (auto split: option.splits)
next
  case OtherNode
  with assms show ?thesis by (cases ks) simp_all
qed

lemma insertLeaf_depth:
  "insertLeaf path pos new s = Some s' \<Longrightarrow>
   calculateSelectionSetDepth s d \<le> calculateSelectionSetDepth s' d"
proof (induction path arbitrary: s s' d)
  case Nil
  from Nil.prems show ?case
    by (cases rule: insertLeaf_cases)
       (simp_all only: calculateSelectionSetDepth_Max Max_insert_image_insert_mono list.distinct)
next
  case (Cons i rest)
  from Cons.prems show ?case
  proof (cases rule: insertLeaf_cases)
    case (Here sels)
    then show ?thesis by simp
  next
    case (Field j rest' sels al nm s2 s2')
    then have "insertLeaf rest pos new s2 = Some s2'" by simp
    then have "calculateSelectionSetDepth s2 (d + 1) \<le> calculateSelectionSetDepth s2' (d + 1)"
      by (rule Cons.IH)
    then have "selectionDepth (sels ! j) d \<le> selectionDepth (Field_ast al nm (Some s2')) d"
      using Field(4) by (simp add: selectionDepth_def del: calculateSelectionSetDepth.simps)
    then show ?thesis
      using Field(2,3,6)
      by (simp only: calculateSelectionSetDepth_Max Max_insert_image_update_mono)
  next
    case (Inline j rest' sels s2 s2')
    then have "insertLeaf rest pos new s2 = Some s2'" by simp
    then have "calculateSelectionSetDepth s2 d \<le> calculateSelectionSetDepth s2' d"
      by (rule Cons.IH)
    then have "selectionDepth (sels ! j) d \<le> selectionDepth (InlineFragment (Some s2')) d"
      using Inline(4) by (simp add: selectionDepth_def del: calculateSelectionSetDepth.simps)
    then show ?thesis
      using Inline(2,3,6)
      by (simp only: calculateSelectionSetDepth_Max Max_insert_image_update_mono)
  qed
qed

lemma insertLeafNode_depth:
  "insertLeafNode ks path pos al nm doc = Some doc' \<Longrightarrow>
   calculateQueryDepth doc d \<le> calculateQueryDepth doc' d"
proof (induction ks arbitrary: doc doc')
  case Nil
  from Nil.prems show ?case
  proof (cases rule: insertLeafNode_cases)
    case (Operation s s')
    then show ?thesis
      using insertLeaf_depth [OF Operation(3), of d] calculateSelectionSetDepth_ge [of d s']
      by (auto simp: Let_def simp del: calculateSelectionSetDepth.simps)
  next
    case (Fragment s s')
    then show ?thesis
      using insertLeaf_depth [OF Fragment(3), of d] calculateSelectionSetDepth_ge [of d s']
      by (auto simp: Let_def simp del: calculateSelectionSetDepth.simps)
  qed simp
next
  case (Cons k rest)
  from Cons.prems show ?case
  proof (cases rule: insertLeafNode_cases)
    case (Document k' rest' defs d')
    then have "insertLeafNode rest path pos al nm (defs ! k') = Some d'" by simp
    then have "calculateQueryDepth (defs ! k') d \<le> calculateQueryDepth d' d"
      by (rule Cons.IH)
    then show ?thesis
      using Document(2,3,5)
      by (simp only: calculateQueryDepth_Max Max_insert_image_update_mono)
  qed simp_all
qed

lemma insertLeafNode_aliases:
  "insertLeafNode ks path pos al nm doc = Some doc' \<Longrightarrow>
   countAliases doc' = countAliases doc + selectionAliases (Field_ast al nm None)"
proof (induction ks arbitrary: doc doc')
  case Nil
  from Nil.prems show ?case
  proof (cases rule: insertLeafNode_cases)
    case (Operation s s')
    then show ?thesis
      using insertLeaf_aliases [of path pos "Field_ast al nm None" s s']
      by (simp del: countSelectionSetAliases.simps)
  next
    case (Fragment s s')
    then show ?thesis
      using insertLeaf_aliases [of path pos "Field_ast al nm None" s s']
      by (simp del: countSelectionSetAliases.simps)
  qed simp
next
  case (Cons k rest)
  from Cons.prems show ?case
  proof (cases rule: insertLeafNode_cases)
    case (Document k' rest' defs d')
    then have "insertLeafNode rest path pos al nm (defs ! k') = Some d'" by simp
    then have "countAliases d' = countAliases (defs ! k') + selectionAliases (Field_ast al nm None)"
      by (rule Cons.IH)
    then show ?thesis
      using Document(2,3,5)
      by (simp add: countAliases_sum sum_list_map_update del: countAliases.simps)
  qed simp_all
qed


text \<open>
  The complexity over the exact integers: it is not negative at a multiplier that is
  not negative, it does not decrease when a leaf field is added there, and the function
  of the code computes its image in \<open>64 word\<close>.
\<close>

lemma specSelectionSetComplexity_nonneg:
  "0 \<le> m \<Longrightarrow> 0 \<le> specSelectionSetComplexity s (m::int)"
proof (induction s arbitrary: m rule: hasIntrospectionInSelectionSet.induct)
  case (1 sels)
  have "0 \<le> x" if "x \<in> set (map (\<lambda>selection.
        (case selection of
           Field_ast al nm None \<Rightarrow> m
         | Field_ast al nm (Some s) \<Rightarrow> m + specSelectionSetComplexity s (2 * m)
         | InlineFragment None \<Rightarrow> 0
         | InlineFragment (Some s) \<Rightarrow> specSelectionSetComplexity s m
         | FragmentSpread nm \<Rightarrow> m)) sels)" for x
    using that "1.IH" "1.prems"
    by (auto split: selection.splits option.splits simp del: specSelectionSetComplexity.simps)
  then show ?case
    by (simp only: specSelectionSetComplexity.simps sum_list_nonneg)
qed

lemma specQueryComplexity_nonneg:
  "0 \<le> m \<Longrightarrow> 0 \<le> specQueryComplexity doc (m::int)"
proof (induction doc)
  case (Document defs)
  then show ?case by (auto intro!: sum_list_nonneg)
next
  case (OperationDefinition selSet)
  then show ?case
    by (cases selSet) (simp_all add: specSelectionSetComplexity_nonneg del: specSelectionSetComplexity.simps)
next
  case (FragmentDefinition selSet)
  then show ?case
    by (cases selSet) (simp_all add: specSelectionSetComplexity_nonneg del: specSelectionSetComplexity.simps)
next
  case OtherNode
  show ?case by simp
qed

lemma of_int_specSelectionSetComplexity:
  "(of_int (specSelectionSetComplexity s m) :: 'a::comm_ring_1) =
     specSelectionSetComplexity s (of_int m)"
proof (induction s arbitrary: m rule: hasIntrospectionInSelectionSet.induct)
  case (1 sels)
  have "(of_int (case sel of
           Field_ast al nm None \<Rightarrow> m
         | Field_ast al nm (Some s) \<Rightarrow> m + specSelectionSetComplexity s (2 * m)
         | InlineFragment None \<Rightarrow> 0
         | InlineFragment (Some s) \<Rightarrow> specSelectionSetComplexity s m
         | FragmentSpread nm \<Rightarrow> m) :: 'a)
      = (case sel of
           Field_ast al nm None \<Rightarrow> of_int m
         | Field_ast al nm (Some s) \<Rightarrow> of_int m + specSelectionSetComplexity s (2 * of_int m)
         | InlineFragment None \<Rightarrow> 0
         | InlineFragment (Some s) \<Rightarrow> specSelectionSetComplexity s (of_int m)
         | FragmentSpread nm \<Rightarrow> of_int m)"
    if "sel \<in> set sels" for sel
    using that "1.IH"(1) [of sel _ _ _ _ "2 * m"] "1.IH"(2) [of sel _ _ m]
    by (auto split: selection.splits option.splits simp del: specSelectionSetComplexity.simps)
  then show ?case
    by (simp add: sum_list_of_int [symmetric] comp_def cong: map_cong)
qed

lemma of_int_specQueryComplexity:
  "(of_int (specQueryComplexity doc m) :: 'a::comm_ring_1) = specQueryComplexity doc (of_int m)"
proof (induction doc)
  case (Document defs)
  then show ?case
    by (simp add: sum_list_of_int [symmetric] comp_def cong: map_cong)
next
  case (OperationDefinition selSet)
  then show ?case
    by (cases selSet) (simp_all add: of_int_specSelectionSetComplexity del: specSelectionSetComplexity.simps)
next
  case (FragmentDefinition selSet)
  then show ?case
    by (cases selSet) (simp_all add: of_int_specSelectionSetComplexity del: specSelectionSetComplexity.simps)
next
  case OtherNode
  show ?case by simp
qed

lemma insertLeaf_exact_complexity:
  "insertLeaf path pos (Field_ast al nm None) s = Some s' \<Longrightarrow> 0 \<le> m \<Longrightarrow>
   specSelectionSetComplexity s (m::int) \<le> specSelectionSetComplexity s' m"
proof (induction path arbitrary: s s' m)
  case Nil
  from Nil.prems(1) show ?case
  proof (cases rule: insertLeaf_cases)
    case (Here sels)
    have "specSelectionSetComplexity s' m = specSelectionSetComplexity s m + m"
      by (simp only: Here specSelectionSetComplexity.simps sum_list_map_insert
          selection.case option.case)
    with Nil.prems(2) show ?thesis by simp
  qed simp_all
next
  case (Cons i rest)
  from Cons.prems(1) show ?case
  proof (cases rule: insertLeaf_cases)
    case (Here sels)
    then show ?thesis by simp
  next
    case (Field j rest' sels al' nm' s2 s2')
    then have "insertLeaf rest pos (Field_ast al nm None) s2 = Some s2'" by simp
    then have "specSelectionSetComplexity s2 (2 * m) \<le> specSelectionSetComplexity s2' (2 * m)"
      using Cons.prems(2) by (intro Cons.IH) simp_all
    then show ?thesis
      using Field(2,3,4,6)
      by (simp add: sum_list_map_update del: specSelectionSetComplexity.simps
          add: specSelectionSetComplexity.simps [of "sels"]
            specSelectionSetComplexity.simps [of "sels[j := Field_ast al' nm' (Some s2')]"])
  next
    case (Inline j rest' sels s2 s2')
    then have "insertLeaf rest pos (Field_ast al nm None) s2 = Some s2'" by simp
    then have "specSelectionSetComplexity s2 m \<le> specSelectionSetComplexity s2' m"
      using Cons.prems(2) by (intro Cons.IH) simp_all
    then show ?thesis
      using Inline(2,3,4,6)
      by (simp add: sum_list_map_update del: specSelectionSetComplexity.simps
          add: specSelectionSetComplexity.simps [of "sels"]
            specSelectionSetComplexity.simps [of "sels[j := InlineFragment (Some s2')]"])
  qed
qed

lemma insertLeafNode_exact_complexity:
  "insertLeafNode ks path pos al nm doc = Some doc' \<Longrightarrow> 0 \<le> m \<Longrightarrow>
   specQueryComplexity doc (m::int) \<le> specQueryComplexity doc' m"
proof (induction ks arbitrary: doc doc')
  case Nil
  from Nil.prems(1) show ?case
  proof (cases rule: insertLeafNode_cases)
    case (Operation s s')
    then show ?thesis
      using insertLeaf_exact_complexity [OF Operation(3) Nil.prems(2)]
      by (simp del: specSelectionSetComplexity.simps)
  next
    case (Fragment s s')
    then show ?thesis
      using insertLeaf_exact_complexity [OF Fragment(3) Nil.prems(2)]
      by (simp del: specSelectionSetComplexity.simps)
  qed simp
next
  case (Cons k rest)
  from Cons.prems(1) show ?case
  proof (cases rule: insertLeafNode_cases)
    case (Document k' rest' defs d')
    then have "insertLeafNode rest path pos al nm (defs ! k') = Some d'" by simp
    then have "specQueryComplexity (defs ! k') m \<le> specQueryComplexity d' m"
      using Cons.prems(2) by (intro Cons.IH)
    then show ?thesis
      using Document(2,3,5)
      by (simp add: sum_list_map_update)
  qed simp_all
qed

lemma sint_word_of_int_64:
  "- (2 ^ 63) \<le> x \<Longrightarrow> x < 2 ^ 63 \<Longrightarrow> sint (word_of_int x :: 64 word) = x"
  by (simp add: sint_sbintrunc' signed_take_bit_int_eq_self)

lemma calculateQueryComplexity_exact:
  "calculateQueryComplexity doc m = word_of_int (specQueryComplexity doc (sint m))"
  by (simp add: calculateQueryComplexity_spec of_int_specQueryComplexity)

lemma insertLeafNode_complexity:
  assumes ins: "insertLeafNode ks path pos al nm doc = Some doc'"
    and m: "0 \<le>s m"
    and fits: "specQueryComplexity doc' (sint m) < 2 ^ 63"
  shows "calculateQueryComplexity doc m \<le>s calculateQueryComplexity doc' m"
proof -
  from m have m0: "0 \<le> sint m" by (simp add: word_sle_eq)
  have lo: "0 \<le> specQueryComplexity doc (sint m)"
    using m0 by (rule specQueryComplexity_nonneg)
  have mono: "specQueryComplexity doc (sint m) \<le> specQueryComplexity doc' (sint m)"
    using ins m0 by (rule insertLeafNode_exact_complexity)
  have "sint (calculateQueryComplexity doc m) = specQueryComplexity doc (sint m)"
    unfolding calculateQueryComplexity_exact
    using lo mono fits by (intro sint_word_of_int_64) simp_all
  moreover have "sint (calculateQueryComplexity doc' m) = specQueryComplexity doc' (sint m)"
    unfolding calculateQueryComplexity_exact
    using lo mono fits by (intro sint_word_of_int_64) simp_all
  ultimately show ?thesis
    using mono by (simp add: word_sle_eq)
qed


lemma deepChain_insert:
  "insertLeafNode [0] (replicate 62 0) 1 None (Some ''y'') deepChain_doc = Some deepChain_doc'"
  by (simp add: deepChain_doc_def deepChain_doc'_def scenario_defs eval_nat_numeral)

lemma deepChain_values:
  "calculateQueryComplexity deepChain_doc 1 = 9223372036854775807"
  "calculateQueryComplexity deepChain_doc' 1 = 13835058055282163711"
  by (simp_all add: deepChain_doc_def deepChain_doc'_def scenario_defs eval_nat_numeral)

text \<open>
  Claim C8 says that adding one sibling leaf field to any selection set of a document
  never decreases the alias count, the depth, or the complexity at any multiplier. The
  complexity does decrease at a negative multiplier: at \<open>- 1\<close> the query
  \<^verbatim>\<open>{ hello }\<close> has complexity \<open>- 1\<close> and \<^verbatim>\<open>{ hello b }\<close> has \<open>- 2\<close>.
  It also decreases where the sum leaves the range of Go's \<^verbatim>\<open>int\<close>: at multiplier 1
  a chain of 62 composite fields around one leaf has complexity \<open>2 ^ 63 - 1\<close>, and a
  second leaf beside the first, which weighs \<open>2 ^ 62\<close>, wraps the sum to a negative
  number.
\<close>

theorem leaf_insertion_counterexample:
  "insertLeafNode [0] [] 1 None (Some ''b'') scenarioA_doc = Some twoLeaves_doc \<and>
   calculateQueryComplexity scenarioA_doc (- 1) = - 1 \<and>
   calculateQueryComplexity twoLeaves_doc (- 1) = - 2 \<and>
   \<not> calculateQueryComplexity scenarioA_doc (- 1) \<le>s calculateQueryComplexity twoLeaves_doc (- 1) \<and>
   insertLeafNode [0] (replicate 62 0) 1 None (Some ''y'') deepChain_doc = Some deepChain_doc' \<and>
   sint (calculateQueryComplexity deepChain_doc 1) = 9223372036854775807 \<and>
   sint (calculateQueryComplexity deepChain_doc' 1) = - 4611686018427387905 \<and>
   \<not> calculateQueryComplexity deepChain_doc 1 \<le>s calculateQueryComplexity deepChain_doc' 1"
proof (intro conjI)
  show "insertLeafNode [0] [] 1 None (Some ''b'') scenarioA_doc = Some twoLeaves_doc"
    by (simp add: scenarioA_doc_def twoLeaves_doc_def scenario_defs)
  show a: "calculateQueryComplexity scenarioA_doc (- 1) = - 1"
    by (simp add: scenarioA_doc_def scenario_defs)
  show b: "calculateQueryComplexity twoLeaves_doc (- 1) = - 2"
    by (simp add: twoLeaves_doc_def scenario_defs)
  show "\<not> calculateQueryComplexity scenarioA_doc (- 1) \<le>s calculateQueryComplexity twoLeaves_doc (- 1)"
    by (simp add: a b word_sle_eq)
  show "insertLeafNode [0] (replicate 62 0) 1 None (Some ''y'') deepChain_doc = Some deepChain_doc'"
    by (rule deepChain_insert)
  show c: "sint (calculateQueryComplexity deepChain_doc 1) = 9223372036854775807"
    by (simp add: deepChain_values)
  show d: "sint (calculateQueryComplexity deepChain_doc' 1) = - 4611686018427387905"
    by (simp add: deepChain_values)
  show "\<not> calculateQueryComplexity deepChain_doc 1 \<le>s calculateQueryComplexity deepChain_doc' 1"
    by (simp add: c d word_sle_eq)
qed

text \<open>
  Claim C8, amended: adding one sibling leaf field to any selection set of a document
  never decreases the alias count, and strictly increases it when the field carries a
  non-empty alias; it never decreases the depth, from any starting depth; and it does not
  decrease the complexity at a multiplier \<open>m\<close> that is not negative, as long as the exact
  complexity of the enlarged document at \<open>m\<close> is below \<open>2 ^ 63\<close>.
\<close>

theorem leaf_insertion_monotone:
  assumes "insertLeafNode ks path pos al nm doc = Some doc'"
  shows
  "countAliases doc \<le> countAliases doc' \<and>
   ((\<exists>v. al = Some v \<and> v \<noteq> []) \<longrightarrow> countAliases doc < countAliases doc') \<and>
   calculateQueryDepth doc d \<le> calculateQueryDepth doc' d \<and>
   (0 \<le>s m \<and> specQueryComplexity doc' (sint m) < 2 ^ 63 \<longrightarrow>
      calculateQueryComplexity doc m \<le>s calculateQueryComplexity doc' m)"
proof (intro conjI impI)
  have a: "countAliases doc' = countAliases doc + selectionAliases (Field_ast al nm None)"
    using assms by (rule insertLeafNode_aliases)
  show "countAliases doc \<le> countAliases doc'"
    unfolding a by (simp add: selectionAliases_def split: option.split)
  show "countAliases doc < countAliases doc'" if "\<exists>v. al = Some v \<and> v \<noteq> []"
    unfolding a using that by (auto simp: selectionAliases_def)
  show "calculateQueryDepth doc d \<le> calculateQueryDepth doc' d"
    using assms by (rule insertLeafNode_depth)
  show "calculateQueryComplexity doc m \<le>s calculateQueryComplexity doc' m"
    if "0 \<le>s m \<and> specQueryComplexity doc' (sint m) < 2 ^ 63"
    using assms that by (auto intro: insertLeafNode_complexity)
qed

theorem leaf_insertion_monotone_witness:
  "insertLeafNode [0] [] 1 (Some ''h2'') (Some ''hello'') scenarioA_doc = Some aliasedLeaves_doc \<and>
   countAliases scenarioA_doc = 0 \<and> countAliases aliasedLeaves_doc = 1 \<and>
   calculateQueryDepth scenarioA_doc 0 \<le> calculateQueryDepth aliasedLeaves_doc 0 \<and>
   (0::go_int) \<le>s 1 \<and> specQueryComplexity aliasedLeaves_doc (sint (1::go_int)) < 2 ^ 63 \<and>
   calculateQueryComplexity scenarioA_doc 1 \<le>s calculateQueryComplexity aliasedLeaves_doc 1"
proof -
  have ins: "insertLeafNode [0] [] 1 (Some ''h2'') (Some ''hello'') scenarioA_doc
      = Some aliasedLeaves_doc"
    by (simp add: scenarioA_doc_def aliasedLeaves_doc_def scenario_defs)
  have vals: "countAliases scenarioA_doc = 0" "countAliases aliasedLeaves_doc = 1"
    "(0::go_int) \<le>s 1" "specQueryComplexity aliasedLeaves_doc (sint (1::go_int)) < 2 ^ 63"
    by (simp_all add: scenarioA_doc_def aliasedLeaves_doc_def scenario_defs word_sle_eq)
  show ?thesis
    using leaf_insertion_monotone [OF ins, of 0 1] ins vals by simp
qed

end
